theory Spec2Isabelle
  imports Complex_Main "HOL-Library.AList"
begin

section \<open>Build cache gate (serverlessbench: AWS.deploy, GCP.deploy, Azure.deploy)\<close>

text \<open>
  The three \<^verbatim>\<open>deploy\<close> methods open with the same block:
  \<^verbatim>\<open>
  src_hash = compute_directory_hash(os.path.join(submodule_path, 'src'))
  target_hash = compute_directory_hash(os.path.join(submodule_path, 'target')) if os.path.exists(
      os.path.join(submodule_path, 'target')) else None
  cache = find_cache('aws', benchmark_name, native)

  if not cache or cache['src_hash'] != src_hash or cache['target_hash'] != target_hash:
      self.build(root_path, benchmark_name, submodule_path, native)
      target_hash = compute_directory_hash(os.path.join(submodule_path, 'target'))
      update_cache('aws', benchmark_name, native, src_hash, target_hash)
  else:
      self.logging.warning(...)
  \<close>
  A directory hash is a string; the hash of the output directory is \<open>None\<close> when the
  directory does not exist.
\<close>

type_synonym hash = string

record cache_entry =
  src_hash :: hash
  target_hash :: hash

type_synonym build_cache = "string \<times> string \<times> bool \<rightharpoonup> cache_entry"

text \<open>
  Modelled from the spec: \<^verbatim>\<open>find_cache\<close> and \<^verbatim>\<open>update_cache\<close> of
  \<^verbatim>\<open>serverlessbench/utils.py\<close>, which is not part of the sources at hand. The spec
  gives the persisted state as a mapping from (provider, benchmark, native) to
  \<open>{source_hash, target_hash}\<close>, read before the build and written after it.
\<close>

definition find_cache :: "build_cache \<Rightarrow> string \<Rightarrow> string \<Rightarrow> bool \<Rightarrow> cache_entry option" where
  "find_cache store provider benchmark_name native = store (provider, benchmark_name, native)"

definition update_cache ::
  "build_cache \<Rightarrow> string \<Rightarrow> string \<Rightarrow> bool \<Rightarrow> hash \<Rightarrow> hash \<Rightarrow> build_cache" where
  "update_cache store provider benchmark_name native s t =
     store((provider, benchmark_name, native) \<mapsto> \<lparr>src_hash = s, target_hash = t\<rparr>)"

text \<open>
  The gate itself. \<open>cur_src\<close> and \<open>cur_target\<close> are the two hashes computed before the
  test, \<open>built_target\<close> is what \<^verbatim>\<open>compute_directory_hash\<close> returns for the output
  directory once \<^verbatim>\<open>self.build\<close> has run. The result says whether the build ran and
  gives the cache store afterwards.
\<close>

definition deploy_build_gate ::
  "string \<Rightarrow> build_cache \<Rightarrow> string \<Rightarrow> bool \<Rightarrow> hash \<Rightarrow> hash option \<Rightarrow> hash \<Rightarrow> bool \<times> build_cache" where
  "deploy_build_gate provider store benchmark_name native cur_src cur_target built_target =
     (case find_cache store provider benchmark_name native of
        None \<Rightarrow> (True, update_cache store provider benchmark_name native cur_src built_target)
      | Some cache \<Rightarrow>
          if src_hash cache \<noteq> cur_src \<or> Some (target_hash cache) \<noteq> cur_target
          then (True, update_cache store provider benchmark_name native cur_src built_target)
          else (False, store))"

definition aws_deploy_build_gate ::
  "build_cache \<Rightarrow> string \<Rightarrow> bool \<Rightarrow> hash \<Rightarrow> hash option \<Rightarrow> hash \<Rightarrow> bool \<times> build_cache" where
  "aws_deploy_build_gate = deploy_build_gate ''aws''"

definition gcp_deploy_build_gate ::
  "build_cache \<Rightarrow> string \<Rightarrow> bool \<Rightarrow> hash \<Rightarrow> hash option \<Rightarrow> hash \<Rightarrow> bool \<times> build_cache" where
  "gcp_deploy_build_gate = deploy_build_gate ''gcp''"

definition azure_deploy_build_gate ::
  "build_cache \<Rightarrow> string \<Rightarrow> bool \<Rightarrow> hash \<Rightarrow> hash option \<Rightarrow> hash \<Rightarrow> bool \<times> build_cache" where
  "azure_deploy_build_gate = deploy_build_gate ''azure''"

section \<open>Python values and built-ins used by the benchmarker\<close>

text \<open>
  Exceptions that the modelled code can raise; \<open>SystemExit\<close> is \<^verbatim>\<open>exit(-1)\<close>.
  \<open>KeyError\<close> carries the missing key.
\<close>

datatype py_error =
    AttributeError
  | IndexError
  | KeyError string
  | TypeError
  | ValueError
  | SystemExit int

text \<open>
  A Python float is kept as an exact rational here; the arithmetic done on it by the code
  is one division by a power of ten.
\<close>

type_synonym pyfloat = rat

text \<open>What \<^verbatim>\<open>json.loads\<close> returns. An object keeps its members in order.\<close>

datatype json =
    JNull
  | JBool bool
  | JInt int
  | JFloat pyfloat
  | JStr string
  | JArr "json list"
  | JObj "(string \<times> json) list"

text \<open>Truth value of a parsed JSON value, as \<^verbatim>\<open>not x\<close> and \<^verbatim>\<open>if x\<close> see it.\<close>

fun truthy :: "json \<Rightarrow> bool" where
  "truthy JNull = False"
| "truthy (JBool b) = b"
| "truthy (JInt i) = (i \<noteq> 0)"
| "truthy (JFloat x) = (x \<noteq> 0)"
| "truthy (JStr s) = (s \<noteq> [])"
| "truthy (JArr xs) = (xs \<noteq> [])"
| "truthy (JObj kvs) = (kvs \<noteq> [])"

text \<open>
  \<^verbatim>\<open>s.split(c)\<close> for a one-character separator: the pieces between the separators, at
  least one piece, empty pieces kept.
\<close>

fun split_on :: "char \<Rightarrow> string \<Rightarrow> string list" where
  "split_on c [] = [[]]"
| "split_on c (x # xs) =
     (if x = c then [] # split_on c xs
      else (case split_on c xs of
              [] \<Rightarrow> [[x]]
            | p # ps \<Rightarrow> (x # p) # ps))"

text \<open>ASCII white space, as \<^verbatim>\<open>str.isspace\<close> and \<^verbatim>\<open>str.split()\<close> see it.\<close>

definition is_space :: "char \<Rightarrow> bool" where
  "is_space c = (c \<in> {CHR '' '', CHR 0x09, CHR 0x0A, CHR 0x0B, CHR 0x0C, CHR 0x0D,
                       CHR 0x1C, CHR 0x1D, CHR 0x1E, CHR 0x1F})"

definition isspace :: "string \<Rightarrow> bool" where
  "isspace s = (s \<noteq> [] \<and> (\<forall>c \<in> set s. is_space c))"

text \<open>\<^verbatim>\<open>s.split()[0]\<close>: the first white-space separated token, \<open>IndexError\<close> if none.\<close>

definition first_token :: "string \<Rightarrow> py_error + string" where
  "first_token s =
     (case dropWhile is_space s of
        [] \<Rightarrow> Inl IndexError
      | t \<Rightarrow> Inr (takeWhile (\<lambda>c. \<not> is_space c) t))"

text \<open>\<^verbatim>\<open>s.rstrip('s')\<close>.\<close>

definition rstrip :: "char \<Rightarrow> string \<Rightarrow> string" where
  "rstrip c s = rev (dropWhile (\<lambda>x. x = c) (rev s))"












text \<open>
  A Python dict with keys of type \<open>'k\<close>: an association list with distinct keys, in
  insertion order. \<^verbatim>\<open>d.setdefault(k, v)\<close> stores \<open>v\<close> only when \<open>k\<close> is not yet a key.
\<close>

definition setdefault :: "'k \<Rightarrow> 'v \<Rightarrow> ('k \<times> 'v) list \<Rightarrow> ('k \<times> 'v) list" where
  "setdefault k v d = (if k \<in> fst ` set d then d else d @ [(k, v)])"

section \<open>Invocation records and a single invocation (benchmarker.py)\<close>

text \<open>
  The \<^verbatim>\<open>response_body\<close> of a \<^verbatim>\<open>FunctionInvocationResult\<close> is the parsed body, or
  the raw text when parsing failed.
\<close>

datatype body = Parsed json | Raw string

record invocation_result =
  request_id :: "string option"
  provider_time :: "pyfloat option"
  client_begin :: int
  client_end :: int
  client_time :: pyfloat
  response_body :: body

text \<open>The constructor sets \<^verbatim>\<open>provider_time = None\<close> ("will be set later").\<close>

definition FunctionInvocationResult ::
  "string option \<Rightarrow> int \<Rightarrow> int \<Rightarrow> pyfloat \<Rightarrow> body \<Rightarrow> invocation_result" where
  "FunctionInvocationResult rid cb ce ct rb =
     \<lparr>request_id = rid, provider_time = None, client_begin = cb, client_end = ce,
      client_time = ct, response_body = rb\<rparr>"

text \<open>
  What the network gives back for one \<^verbatim>\<open>self.http.request\<close>: an exception, or a
  response with its headers (\<^verbatim>\<open>headers.get\<close>) and its body decoded as UTF-8
  (\<open>None\<close> when the bytes do not decode). \<open>start_time\<close> and \<open>end_time\<close> are the two
  clock readings in microseconds taken around the request.
\<close>

record http_response =
  headers :: "string \<rightharpoonup> string"
  data :: "string option"

datatype http_outcome = HTTPError | RequestError | OtherException | Response http_response

record invocation_io =
  start_time :: int
  end_time :: int
  outcome :: http_outcome

text \<open>
  \<^verbatim>\<open>_get_request_id\<close>. For GCP the header is cut at the first \<open>;\<close>; a missing header
  makes \<^verbatim>\<open>None.split\<close> raise. An unknown provider falls through and yields \<open>None\<close>.
\<close>

definition get_request_id :: "(string \<rightharpoonup> string) \<Rightarrow> string \<Rightarrow> py_error + string option" where
  "get_request_id hdrs provider =
     (if provider = ''aws'' then Inr (hdrs ''x-amzn-RequestId'')
      else if provider = ''azure'' then Inr (hdrs ''X-Azure-Functions-InvocationId'')
      else if provider = ''gcp'' then
        (case hdrs ''X-Cloud-Trace-Context'' of
           None \<Rightarrow> Inl AttributeError
         | Some v \<Rightarrow> Inr (Some (hd (split_on CHR '';'' v))))
      else if provider = ''knative'' then Inr (hdrs ''x-client-trace-id'')
      else Inr None)"

text \<open>
  \<^verbatim>\<open>invoke_function\<close>. \<open>loads\<close> is \<^verbatim>\<open>json.loads\<close> (\<open>None\<close> when it raises
  \<open>JSONDecodeError\<close>). Every exception other than \<open>JSONDecodeError\<close> ends in
  \<^verbatim>\<open>exit(-1)\<close>; on \<open>JSONDecodeError\<close> the raw text becomes the response body. An empty
  body is read as the empty object. The URL, the method and the request body only shape
  the request that is sent; the reply is given by \<open>io\<close>.
\<close>

definition invoke_function ::
  "(string \<Rightarrow> json option) \<Rightarrow> string \<Rightarrow> invocation_io \<Rightarrow> py_error + invocation_result" where
  "invoke_function loads provider io =
     (case outcome io of
        HTTPError \<Rightarrow> Inl (SystemExit (- 1))
      | RequestError \<Rightarrow> Inl (SystemExit (- 1))
      | OtherException \<Rightarrow> Inl (SystemExit (- 1))
      | Response response \<Rightarrow>
          (case get_request_id (headers response) provider of
             Inl e \<Rightarrow> Inl (SystemExit (- 1))
           | Inr rid \<Rightarrow>
               (case data response of
                  None \<Rightarrow> Inl (SystemExit (- 1))
                | Some text \<Rightarrow>
                    Inr (FunctionInvocationResult rid (start_time io) (end_time io)
                          (of_int (end_time io - start_time io) / 1000000)
                          (if text = [] then Parsed (JObj [])
                           else (case loads text of
                                   None \<Rightarrow> Raw text
                                 | Some response_dict \<Rightarrow> Parsed response_dict))))))"

section \<open>The cold-start loop of start\_run (benchmarker.py)\<close>

text \<open>
  \<^verbatim>\<open>result.response_body.get('is_cold')\<close>: only a parsed object has \<^verbatim>\<open>get\<close>; a
  string, a list, a number or \<open>None\<close> raise \<open>AttributeError\<close>.
\<close>

definition body_get :: "body \<Rightarrow> string \<Rightarrow> py_error + json option" where
  "body_get rb k =
     (case rb of
        Parsed (JObj kvs) \<Rightarrow> Inr (map_of kvs k)
      | _ \<Rightarrow> Inl AttributeError)"

definition reports_cold :: "json option \<Rightarrow> bool" where
  "reports_cold v = (case v of None \<Rightarrow> False | Some j \<Rightarrow> truthy j)"

text \<open>
  What the loop does to the outside, in order: the call that enforces a cold start, the
  HTTP invocation, the back-off sleep (seconds).
\<close>

datatype effect = EnforceColdStart | Invoke | Sleep nat

type_synonym results = "(string option \<times> invocation_result) list"

record run_state =
  cold_start_counter :: int
  benchmark_results :: results
  effects :: "effect list"

definition initial_run_state :: run_state where
  "initial_run_state = \<lparr>cold_start_counter = 0, benchmark_results = [], effects = []\<rparr>"

text \<open>
  One pass through the body of
  \<^verbatim>\<open>while cold_start_counter < repetitions\<close>: enforce, invoke, test \<^verbatim>\<open>is_cold\<close>;
  a warm reply sleeps five seconds and \<^verbatim>\<open>continue\<close>s, a cold one advances the counter
  and is stored with \<^verbatim>\<open>setdefault\<close> under its request id.
\<close>

definition cold_iteration ::
  "(string \<Rightarrow> json option) \<Rightarrow> string \<Rightarrow> invocation_io \<Rightarrow> run_state \<Rightarrow> py_error + run_state" where
  "cold_iteration loads prov io st =
     (case invoke_function loads prov io of
        Inl e \<Rightarrow> Inl e
      | Inr result \<Rightarrow>
          (case body_get (response_body result) ''is_cold'' of
             Inl e \<Rightarrow> Inl e
           | Inr is_cold \<Rightarrow>
               if \<not> reports_cold is_cold
               then Inr (st\<lparr>effects := effects st @ [EnforceColdStart, Invoke, Sleep 5]\<rparr>)
               else Inr (st\<lparr>cold_start_counter := cold_start_counter st + 1,
                            benchmark_results :=
                              setdefault (request_id result)
                                (FunctionInvocationResult (request_id result) (client_begin result)
                                   (client_end result) (client_time result) (response_body result))
                                (benchmark_results st),
                            effects := effects st @ [EnforceColdStart, Invoke]\<rparr>)))"

text \<open>
  The loop, driven by the replies the network will give, in order. The loop has no bound
  of its own: when the replies run out while the counter is still below \<open>repetitions\<close>
  the run has not finished, which is the result \<open>None\<close>.
\<close>

fun cold_loop ::
  "(string \<Rightarrow> json option) \<Rightarrow> string \<Rightarrow> int \<Rightarrow> invocation_io list \<Rightarrow> run_state
     \<Rightarrow> (py_error + run_state) option" where
  "cold_loop loads prov repetitions [] st =
     (if cold_start_counter st < repetitions then None else Some (Inr st))"
| "cold_loop loads prov repetitions (io # ios) st =
     (if cold_start_counter st < repetitions
      then (case cold_iteration loads prov io st of
              Inl e \<Rightarrow> Some (Inl e)
            | Inr st' \<Rightarrow> cold_loop loads prov repetitions ios st')
      else Some (Inr st))"

text \<open>
  How a reply fares in the loop's test: it is cold when the invocation returns a record whose
  body is an object with a truthy \<^verbatim>\<open>is_cold\<close>, warm when the body is an object
  without one. \<open>reply_id\<close> is the request id the record is stored under.
\<close>

definition reply_is_cold :: "(string \<Rightarrow> json option) \<Rightarrow> string \<Rightarrow> invocation_io \<Rightarrow> bool" where
  "reply_is_cold loads prov io =
     (case invoke_function loads prov io of
        Inl e \<Rightarrow> False
      | Inr result \<Rightarrow>
          (case body_get (response_body result) ''is_cold'' of
             Inl e \<Rightarrow> False
           | Inr v \<Rightarrow> reports_cold v))"

definition reply_is_warm :: "(string \<Rightarrow> json option) \<Rightarrow> string \<Rightarrow> invocation_io \<Rightarrow> bool" where
  "reply_is_warm loads prov io =
     (case invoke_function loads prov io of
        Inl e \<Rightarrow> False
      | Inr result \<Rightarrow>
          (case body_get (response_body result) ''is_cold'' of
             Inl e \<Rightarrow> False
           | Inr v \<Rightarrow> \<not> reports_cold v))"

definition reply_id :: "(string \<Rightarrow> json option) \<Rightarrow> string \<Rightarrow> invocation_io \<Rightarrow> string option" where
  "reply_id loads prov io =
     (case invoke_function loads prov io of Inl e \<Rightarrow> None | Inr result \<Rightarrow> request_id result)"

text \<open>A stored entry stems from a cold reply of the given sequence.\<close>

definition from_cold_reply ::
  "(string \<Rightarrow> json option) \<Rightarrow> string \<Rightarrow> invocation_io list \<Rightarrow> string option \<times> invocation_result \<Rightarrow> bool" where
  "from_cold_reply loads prov ios kr =
     (\<exists>io \<in> set ios. reply_is_cold loads prov io \<and> invoke_function loads prov io = Inr (snd kr)
        \<and> fst kr = request_id (snd kr))"

text \<open>
  Sample data for the examples: a fragment of \<^verbatim>\<open>json.loads\<close> that knows two bodies
  and rejects every other text, a reply with one header, and the entry stored for it.
\<close>

definition sample_loads :: "string \<Rightarrow> json option" where
  \<open>sample_loads s =
     (if s = ''{"is_cold": true}'' then Some (JObj [(''is_cold'', JBool True)])
      else if s = ''{"is_cold": false}'' then Some (JObj [(''is_cold'', JBool False)])
      else None)\<close>

definition reply :: "string \<Rightarrow> string \<Rightarrow> string \<Rightarrow> invocation_io" where
  "reply header rid text =
     \<lparr>start_time = 1000000, end_time = 3000000,
      outcome = Response \<lparr>headers = [header \<mapsto> rid], data = Some text\<rparr>\<rparr>"

definition stored :: "string \<Rightarrow> json \<Rightarrow> string option \<times> invocation_result" where
  "stored rid j =
     (Some rid, \<lparr>request_id = Some rid, provider_time = None, client_begin = 1000000,
                 client_end = 3000000, client_time = 2, response_body = Parsed j\<rparr>)"

section \<open>Reconciling provider logs with the stored records (enrich\_metrics)\<close>

text \<open>
  \<^verbatim>\<open>requests[k]["provider_time"] = x\<close> for a key that is present: the record under
  \<open>k\<close> gets the value, every other record and the order of the keys stay.
\<close>

definition set_provider_time :: "string option \<Rightarrow> pyfloat \<Rightarrow> results \<Rightarrow> results" where
  "set_provider_time k x reqs =
     map (\<lambda>(k', r). if k' = k then (k', r\<lparr>provider_time := Some x\<rparr>) else (k', r)) reqs"

text \<open>Log lines, by level and content.\<close>

datatype level = DEBUG | INFO | WARNING | ERROR

datatype message =
    RunningQuery
  | FoundMetrics nat nat
  | MissingRequests "string option list"
  | FailedToFindMetrics nat nat
  | FetchingLogs
  | NoLogsFound
  | FoundRequest string
  | Received nat nat nat
  | Requerying

text \<open>
  What a reconciler has done so far: the records, the seconds slept, the number of log
  queries sent, the log lines written.
\<close>

record reconcile_state =
  requests :: results
  slept :: nat
  queries :: nat
  logged :: "(level \<times> message) list"

subsection \<open>Azure\<close>







subsection \<open>GCP\<close>

text \<open>
  A fetched log entry: whether its type is exactly \<^verbatim>\<open>LogEntry\<close>, its \<^verbatim>\<open>trace\<close>
  field, and \<^verbatim>\<open>httpRequest\<close> with its \<^verbatim>\<open>latency\<close> (each may be missing, and indexing a
  missing one raises \<open>KeyError\<close>).
\<close>

record gcp_log_entry =
  is_LogEntry :: bool
  trace :: "string option"
  httpRequest :: "string option option"

text \<open>\<^verbatim>\<open>float(log_as_json['httpRequest']["latency"].rstrip('s'))\<close>.\<close>

definition gcp_duration :: "(string \<Rightarrow> pyfloat option) \<Rightarrow> gcp_log_entry \<Rightarrow> py_error + pyfloat" where
  "gcp_duration fl entry =
     (case httpRequest entry of
        None \<Rightarrow> Inl (KeyError ''httpRequest'')
      | Some None \<Rightarrow> Inl (KeyError ''latency'')
      | Some (Some l) \<Rightarrow>
          (case fl (rstrip CHR ''s'' l) of None \<Rightarrow> Inl ValueError | Some d \<Rightarrow> Inr d))"

text \<open>
  The loop \<^verbatim>\<open>for entry in logs\<close>. The id looked up is the last \<open>/\<close>-separated piece
  of the trace; the duration is computed before the id is tested.
\<close>

fun gcp_process_entries ::
  "(string \<Rightarrow> pyfloat option) \<Rightarrow> gcp_log_entry list
     \<Rightarrow> string option list \<times> results \<times> (level \<times> message) list
     \<Rightarrow> py_error + string option list \<times> results \<times> (level \<times> message) list" where
  "gcp_process_entries fl [] acc = Inr acc"
| "gcp_process_entries fl (entry # logs) (processed, reqs, lg) =
     (if \<not> is_LogEntry entry then gcp_process_entries fl logs (processed, reqs, lg)
      else (case trace entry of
              None \<Rightarrow> gcp_process_entries fl logs (processed, reqs, lg)
            | Some t \<Rightarrow>
                if t = [] then gcp_process_entries fl logs (processed, reqs, lg)
                else (let invocation_id = last (split_on CHR ''/'' t) in
                      case gcp_duration fl entry of
                        Inl e \<Rightarrow> Inl e
                      | Inr duration \<Rightarrow>
                          if Some invocation_id \<in> fst ` set reqs
                          then gcp_process_entries fl logs
                                 (List.insert (Some invocation_id) processed,
                                  set_provider_time (Some invocation_id) duration reqs,
                                  lg @ [(DEBUG, FoundRequest invocation_id)])
                          else gcp_process_entries fl logs
                                 (processed, reqs, lg @ [(DEBUG, FoundRequest invocation_id)]))))"


text \<open>
  \<^verbatim>\<open>GCP.enrich_metrics\<close>: a settle sleep of 60 seconds, one fetch (\<open>None\<close> when
  \<^verbatim>\<open>get_logs\<close> caught an exception), one pass over the entries.
\<close>

definition gcp_enrich_metrics ::
  "(string \<Rightarrow> pyfloat option) \<Rightarrow> gcp_log_entry list option \<Rightarrow> results \<Rightarrow> py_error + reconcile_state" where
  "gcp_enrich_metrics fl fetched reqs =
     (case fetched of
        None \<Rightarrow> Inr \<lparr>requests = reqs, slept = 60, queries = 1,
                     logged = [(INFO, FetchingLogs), (ERROR, NoLogsFound)]\<rparr>
      | Some logs \<Rightarrow>
          if logs = []
          then Inr \<lparr>requests = reqs, slept = 60, queries = 1,
                    logged = [(INFO, FetchingLogs), (ERROR, NoLogsFound)]\<rparr>
          else (case gcp_process_entries fl logs ([], reqs, [(INFO, FetchingLogs)]) of
                  Inl e \<Rightarrow> Inl e
                | Inr (processed, reqs', lg) \<Rightarrow>
                    Inr \<lparr>requests = reqs', slept = 60, queries = 1,
                         logged = lg @ (INFO, FoundMetrics (length processed) (length reqs'))
                           # (if length processed < length reqs'
                              then [(INFO, MissingRequests
                                       (filter (\<lambda>k. k \<notin> set processed) (map fst reqs)))]
                              else [])\<rparr>))"

subsection \<open>AWS\<close>

text \<open>
  \<^verbatim>\<open>parse_aws_report\<close>, first half: the tab-separated pieces of the log line, each
  \<open>key: value\<close>, go into \<^verbatim>\<open>aws_vals\<close> with the first token of the value. A piece
  without a colon, or with nothing but white space after it, raises \<open>IndexError\<close>.
\<close>

fun aws_vals_of :: "string list \<Rightarrow> (string \<rightharpoonup> string) \<Rightarrow> py_error + (string \<rightharpoonup> string)" where
  "aws_vals_of [] aws_vals = Inr aws_vals"
| "aws_vals_of (line # lines) aws_vals =
     (if isspace line then aws_vals_of lines aws_vals
      else (case split_on CHR '':'' line of
              k # v # rest \<Rightarrow>
                (case first_token v of
                   Inl e \<Rightarrow> Inl e
                 | Inr tok \<Rightarrow> aws_vals_of lines (aws_vals(k \<mapsto> tok)))
            | _ \<Rightarrow> Inl IndexError))"

definition aws_request_id :: "(string \<rightharpoonup> string) \<Rightarrow> py_error + string" where
  "aws_request_id aws_vals =
     (case aws_vals ''START RequestId'' of
        Some r \<Rightarrow> Inr r
      | None \<Rightarrow>
          (case aws_vals ''REPORT RequestId'' of
             Some r \<Rightarrow> Inr r
           | None \<Rightarrow> Inl (KeyError ''REPORT RequestId'')))"

text \<open>
  \<^verbatim>\<open>parse_aws_report\<close>, up to the assignment: the request id, and the right-hand side
  \<^verbatim>\<open>float(aws_vals["Duration"]) / 1000\<close>, which Python evaluates before it looks at
  the target of the assignment.
\<close>

definition report_fields :: "(string \<Rightarrow> pyfloat option) \<Rightarrow> string \<Rightarrow> py_error + string \<times> pyfloat" where
  "report_fields fl lg =
     (case aws_vals_of (split_on CHR 0x09 lg) Map.empty of
        Inl e \<Rightarrow> Inl e
      | Inr aws_vals \<Rightarrow>
          (case aws_request_id aws_vals of
             Inl e \<Rightarrow> Inl e
           | Inr rid \<Rightarrow>
               (case aws_vals ''Duration'' of
                  None \<Rightarrow> Inl (KeyError ''Duration'')
                | Some d \<Rightarrow>
                    (case fl d of
                       None \<Rightarrow> Inl ValueError
                     | Some x \<Rightarrow> Inr (rid, x / 1000)))))"

text \<open>
  \<^verbatim>\<open>parse_aws_report\<close>, whole. Its second argument is the \<^verbatim>\<open>requests\<close> dict, so
  \<^verbatim>\<open>isinstance(requests, dict)\<close> holds, \<^verbatim>\<open>output = requests\<close>, and the branch with
  the test \<^verbatim>\<open>request_id not in requests\<close> is not taken. The assignment
  \<^verbatim>\<open>output[request_id]["provider_time"] = ...\<close> indexes the dict with the id and raises
  \<open>KeyError\<close> when the id is not a key. The result is the returned id together with the
  dict as it is after the assignment.
\<close>

definition parse_aws_report ::
  "(string \<Rightarrow> pyfloat option) \<Rightarrow> string \<Rightarrow> results \<Rightarrow> py_error + string \<times> results" where
  "parse_aws_report fl lg reqs =
     (case report_fields fl lg of
        Inl e \<Rightarrow> Inl e
      | Inr (rid, seconds) \<Rightarrow>
          if Some rid \<notin> fst ` set reqs then Inl (KeyError rid)
          else Inr (rid, set_provider_time (Some rid) seconds reqs))"

text \<open>
  \<^verbatim>\<open>process_query_results\<close>: a query result is a list of rows, a row a list of
  (field, value) parts. \<^verbatim>\<open>requests_ids.remove\<close> raises \<open>KeyError\<close> for an id that is
  no longer in the set.
\<close>

type_synonym aws_row = "(string \<times> string) list"

fun aws_process_row ::
  "(string \<Rightarrow> pyfloat option) \<Rightarrow> aws_row \<Rightarrow> nat \<times> string option list \<times> results
     \<Rightarrow> py_error + nat \<times> string option list \<times> results" where
  "aws_process_row fl [] acc = Inr acc"
| "aws_process_row fl ((fld, val) # parts) (results_processed, requests_ids, reqs) =
     (if fld = ''@message''
      then (case parse_aws_report fl val reqs of
              Inl e \<Rightarrow> Inl e
            | Inr (rid, reqs') \<Rightarrow>
                if Some rid \<in> fst ` set reqs'
                then (if Some rid \<in> set requests_ids
                      then aws_process_row fl parts
                             (results_processed + 1, removeAll (Some rid) requests_ids, reqs')
                      else Inl (KeyError rid))
                else aws_process_row fl parts (results_processed, requests_ids, reqs'))
      else aws_process_row fl parts (results_processed, requests_ids, reqs))"

fun aws_process_rows ::
  "(string \<Rightarrow> pyfloat option) \<Rightarrow> aws_row list \<Rightarrow> nat \<times> string option list \<times> results
     \<Rightarrow> py_error + nat \<times> string option list \<times> results" where
  "aws_process_rows fl [] acc = Inr acc"
| "aws_process_rows fl (row # rows) acc =
     (case aws_process_row fl row acc of
        Inl e \<Rightarrow> Inl e
      | Inr acc' \<Rightarrow> aws_process_rows fl rows acc')"

definition process_query_results ::
  "(string \<Rightarrow> pyfloat option) \<Rightarrow> aws_row list \<Rightarrow> results \<Rightarrow> py_error + nat \<times> results" where
  "process_query_results fl res reqs =
     (case aws_process_rows fl res (0, remdups (map fst reqs), reqs) of
        Inl e \<Rightarrow> Inl e
      | Inr (results_processed, requests_ids, reqs') \<Rightarrow> Inr (results_processed, reqs'))"

text \<open>
  The loop of \<^verbatim>\<open>AWS.enrich_metrics\<close>,
  \<^verbatim>\<open>while results_processed < results_count\<close>, driven by the answers of the successive
  log queries. It has no attempt cap: when the answers run out while ids are still
  missing the loop has not returned, which is the result \<open>None\<close>.
\<close>

fun aws_requery_loop ::
  "(string \<Rightarrow> pyfloat option) \<Rightarrow> nat \<Rightarrow> aws_row list list \<Rightarrow> nat \<Rightarrow> reconcile_state
     \<Rightarrow> (py_error + reconcile_state) option" where
  "aws_requery_loop fl results_count [] results_processed st =
     (if results_processed < results_count then None else Some (Inr st))"
| "aws_requery_loop fl results_count (res # answers) results_processed st =
     (if results_processed < results_count
      then (case process_query_results fl res (requests st) of
              Inl e \<Rightarrow> Some (Inl e)
            | Inr (results_processed', reqs') \<Rightarrow>
                aws_requery_loop fl results_count answers results_processed'
                  (if results_processed' < results_count
                   then st\<lparr>requests := reqs', slept := slept st + 10, queries := queries st + 1,
                          logged := logged st @
                            [(INFO, Received (length res) results_processed' results_count),
                             (INFO, Requerying)]\<rparr>
                   else st\<lparr>requests := reqs', queries := queries st + 1,
                          logged := logged st @
                            [(INFO, Received (length res) results_processed' results_count)]\<rparr>))
      else Some (Inr st))"

definition aws_enrich_metrics ::
  "(string \<Rightarrow> pyfloat option) \<Rightarrow> aws_row list list \<Rightarrow> results \<Rightarrow> (py_error + reconcile_state) option" where
  "aws_enrich_metrics fl answers reqs =
     aws_requery_loop fl (length reqs) answers 0
       \<lparr>requests = reqs, slept = 100, queries = 0, logged = []\<rparr>"

section \<open>Enforcing a cold start (enforce\_cold\_start of AWS, Azure, GCP)\<close>











section \<open>Writing the result file (start\_run)\<close>









section \<open>Sample log data for the examples\<close>

text \<open>
  A fragment of Python's \<^verbatim>\<open>float\<close> on the three texts that the examples use, and a
  CloudWatch \<^verbatim>\<open>REPORT\<close> line for a request id and a duration in milliseconds, with its
  tab-separated fields.
\<close>

definition sample_float :: "string \<Rightarrow> pyfloat option" where
  "sample_float s =
     (if s = ''12.50'' then Some (25 / 2)
      else if s = ''0.25'' then Some (1 / 4)
      else if s = ''7'' then Some 7
      else None)"

definition report_line :: "string \<Rightarrow> string \<Rightarrow> string" where
  "report_line rid ms =
     ''REPORT RequestId: '' @ rid @ [CHR 0x09] @ ''Duration: '' @ ms @ '' ms'' @ [CHR 0x09]
       @ ''Billed Duration: 13 ms'' @ [CHR 0x09] @ ''Memory Size: 512 MB'' @ [CHR 0x09]
       @ ''Max Memory Used: 100 MB'' @ [CHR 0x09, CHR 0x0A]"

section \<open>Properties of the build cache gate\<close>

text \<open>
  C4. The build is skipped exactly when a cached entry exists and both the current source
  hash and the current artifact hash equal the cached ones. A missing entry, a differing
  source hash, a differing artifact hash and a missing output directory each force the
  build; after a build the entry holds the current source hash and the hash of the fresh
  output, and a skipped build leaves the store as it was.
\<close>

theorem build_gate_skip_iff_hashes_match:
  "(let g = deploy_build_gate p store b n s t r in
      (\<not> fst g \<longleftrightarrow>
         (\<exists>e. find_cache store p b n = Some e \<and> src_hash e = s \<and> Some (target_hash e) = t))
    \<and> (find_cache store p b n = None \<longrightarrow> fst g)
    \<and> (t = None \<longrightarrow> fst g)
    \<and> (fst g \<longrightarrow> find_cache (snd g) p b n = Some \<lparr>src_hash = s, target_hash = r\<rparr>)
    \<and> (\<not> fst g \<longrightarrow> snd g = store))"
  by (auto simp: Let_def deploy_build_gate_def find_cache_def update_cache_def split: option.splits)

theorem build_gate_skip_iff_hashes_match_witness:
  "fst (aws_deploy_build_gate Map.empty ''echo'' False ''s1'' None ''t1'')
   \<and> find_cache (snd (aws_deploy_build_gate Map.empty ''echo'' False ''s1'' None ''t1''))
        ''aws'' ''echo'' False = Some \<lparr>src_hash = ''s1'', target_hash = ''t1''\<rparr>
   \<and> \<not> fst (gcp_deploy_build_gate
        (update_cache Map.empty ''gcp'' ''echo'' True ''s1'' ''t1'') ''echo'' True ''s1'' (Some ''t1'') ''t2'')
   \<and> fst (gcp_deploy_build_gate
        (update_cache Map.empty ''gcp'' ''echo'' True ''s1'' ''t1'') ''echo'' True ''s2'' (Some ''t1'') ''t2'')"
  using build_gate_skip_iff_hashes_match
      [where p = "''aws''" and store = Map.empty and b = "''echo''" and n = False and s = "''s1''"
         and t = None and r = "''t1''"]
    build_gate_skip_iff_hashes_match
      [where p = "''gcp''" and store = "update_cache Map.empty ''gcp'' ''echo'' True ''s1'' ''t1''"
         and b = "''echo''" and n = True and s = "''s1''" and t = "Some ''t1''" and r = "''t2''"]
    build_gate_skip_iff_hashes_match
      [where p = "''gcp''" and store = "update_cache Map.empty ''gcp'' ''echo'' True ''s1'' ''t1''"
         and b = "''echo''" and n = True and s = "''s2''" and t = "Some ''t1''" and r = "''t2''"]
  by (simp add: Let_def aws_deploy_build_gate_def gcp_deploy_build_gate_def find_cache_def
      update_cache_def)

section \<open>Properties of the cold-start loop\<close>

lemma invoke_function_provider_time:
  "invoke_function loads prov io = Inr result \<Longrightarrow> provider_time result = None"
  by (auto simp: invoke_function_def FunctionInvocationResult_def
      split: http_outcome.splits sum.splits option.splits)

lemma rebuild_result:
  "provider_time result = None \<Longrightarrow>
   FunctionInvocationResult (request_id result) (client_begin result) (client_end result)
     (client_time result) (response_body result) = result"
  by (simp add: FunctionInvocationResult_def)

lemma cold_iteration_warm:
  "reply_is_warm loads prov io \<Longrightarrow>
   cold_iteration loads prov io st =
     Inr (st\<lparr>effects := effects st @ [EnforceColdStart, Invoke, Sleep 5]\<rparr>)"
  by (auto simp: reply_is_warm_def cold_iteration_def split: sum.splits)

lemma cold_iteration_cold_all:
  "reply_is_cold loads prov io \<Longrightarrow>
   \<exists>result. invoke_function loads prov io = Inr result \<and>
     (\<forall>st. cold_iteration loads prov io st =
       Inr (st\<lparr>cold_start_counter := cold_start_counter st + 1,
               benchmark_results := setdefault (request_id result) result (benchmark_results st),
               effects := effects st @ [EnforceColdStart, Invoke]\<rparr>))"
  by (auto simp: reply_is_cold_def cold_iteration_def rebuild_result invoke_function_provider_time
      split: sum.splits)

lemma cold_iteration_cold:
  "reply_is_cold loads prov io \<Longrightarrow>
   \<exists>result. invoke_function loads prov io = Inr result \<and>
     cold_iteration loads prov io st =
       Inr (st\<lparr>cold_start_counter := cold_start_counter st + 1,
               benchmark_results := setdefault (request_id result) result (benchmark_results st),
               effects := effects st @ [EnforceColdStart, Invoke]\<rparr>)"
  using cold_iteration_cold_all by blast

lemma cold_iteration_cases:
  assumes "cold_iteration loads prov io st = Inr st'"
  shows "(reply_is_warm loads prov io \<and>
            st' = st\<lparr>effects := effects st @ [EnforceColdStart, Invoke, Sleep 5]\<rparr>)
       \<or> (reply_is_cold loads prov io \<and> (\<exists>result. invoke_function loads prov io = Inr result \<and>
            st' = st\<lparr>cold_start_counter := cold_start_counter st + 1,
               benchmark_results := setdefault (request_id result) result (benchmark_results st),
               effects := effects st @ [EnforceColdStart, Invoke]\<rparr>))"
  using assms
  by (auto simp: reply_is_cold_def reply_is_warm_def cold_iteration_def rebuild_result invoke_function_provider_time
      split: sum.splits if_splits)

lemma set_setdefault: "set (setdefault k v d) \<subseteq> insert (k, v) (set d)"
  by (auto simp: setdefault_def)

lemma cold_loop_only_cold:
  "cold_loop loads prov n ios st = Some (Inr st') \<Longrightarrow>
   \<forall>kr \<in> set (benchmark_results st'). kr \<in> set (benchmark_results st) \<or> from_cold_reply loads prov ios kr"
proof (induction ios arbitrary: st)
  case Nil
  then show ?case by (auto split: if_splits)
next
  case (Cons io ios)
  show ?case
  proof (cases "cold_start_counter st < n")
    case False
    with Cons.prems show ?thesis by auto
  next
    case True
    with Cons.prems obtain st1 where it: "cold_iteration loads prov io st = Inr st1"
      and rest: "cold_loop loads prov n ios st1 = Some (Inr st')"
      by (auto split: sum.splits)
    have ih: "\<forall>kr \<in> set (benchmark_results st'). kr \<in> set (benchmark_results st1) \<or> from_cold_reply loads prov ios kr"
      using Cons.IH [OF rest] .
    have mono: "\<And>kr. from_cold_reply loads prov ios kr \<Longrightarrow> from_cold_reply loads prov (io # ios) kr"
      by (auto simp: from_cold_reply_def)
    have step: "\<forall>kr \<in> set (benchmark_results st1). kr \<in> set (benchmark_results st) \<or> from_cold_reply loads prov (io # ios) kr"
      using cold_iteration_cases [OF it] set_setdefault
      by (fastforce simp: from_cold_reply_def)
    show ?thesis using ih step mono by blast
  qed
qed


lemma cold_loop_counter:
  "cold_loop loads prov n ios st = Some (Inr st') \<Longrightarrow>
   cold_start_counter st' = max (cold_start_counter st) n"
proof (induction ios arbitrary: st)
  case Nil
  then show ?case by (auto split: if_splits)
next
  case (Cons io ios)
  show ?case
  proof (cases "cold_start_counter st < n")
    case False
    with Cons.prems show ?thesis by auto
  next
    case True
    with Cons.prems obtain st1 where it: "cold_iteration loads prov io st = Inr st1"
      and rest: "cold_loop loads prov n ios st1 = Some (Inr st')"
      by (auto split: sum.splits)
    have "cold_start_counter st1 \<le> n"
      using cold_iteration_cases [OF it] True by auto
    moreover have "cold_start_counter st' = max (cold_start_counter st1) n"
      using Cons.IH [OF rest] .
    ultimately show ?thesis using True by auto
  qed
qed

lemma cold_loop_invocations:
  "cold_loop loads prov n ios st = Some (Inr st') \<Longrightarrow>
   int (count_list (effects st') Invoke) - int (count_list (effects st) Invoke) =
     (cold_start_counter st' - cold_start_counter st)
     + (int (count_list (effects st') (Sleep 5)) - int (count_list (effects st) (Sleep 5)))"
proof (induction ios arbitrary: st)
  case Nil
  then show ?case by (auto split: if_splits)
next
  case (Cons io ios)
  show ?case
  proof (cases "cold_start_counter st < n")
    case False
    with Cons.prems show ?thesis by auto
  next
    case True
    with Cons.prems obtain st1 where it: "cold_iteration loads prov io st = Inr st1"
      and rest: "cold_loop loads prov n ios st1 = Some (Inr st')"
      by (auto split: sum.splits)
    have step: "int (count_list (effects st1) Invoke) - int (count_list (effects st) Invoke) =
       (cold_start_counter st1 - cold_start_counter st)
       + (int (count_list (effects st1) (Sleep 5)) - int (count_list (effects st) (Sleep 5)))"
      using cold_iteration_cases [OF it] by auto
    show ?thesis using Cons.IH [OF rest] step by linarith
  qed
qed

lemma distinct_setdefault:
  "distinct (map fst d) \<Longrightarrow> distinct (map fst (setdefault k v d))"
  by (auto simp: setdefault_def)

lemma length_setdefault:
  "length (setdefault k v d) = (if k \<in> fst ` set d then length d else Suc (length d))"
  by (simp add: setdefault_def)

lemma keys_setdefault: "fst ` set (setdefault k v d) = insert k (fst ` set d)"
  by (auto simp: setdefault_def)

lemma cold_loop_distinct_keys:
  "cold_loop loads prov n ios st = Some (Inr st') \<Longrightarrow>
   distinct (map fst (benchmark_results st)) \<Longrightarrow> distinct (map fst (benchmark_results st'))"
proof (induction ios arbitrary: st)
  case Nil
  then show ?case by (auto split: if_splits)
next
  case (Cons io ios)
  show ?case
  proof (cases "cold_start_counter st < n")
    case False
    with Cons.prems show ?thesis by auto
  next
    case True
    with Cons.prems obtain st1 where it: "cold_iteration loads prov io st = Inr st1"
      and rest: "cold_loop loads prov n ios st1 = Some (Inr st')"
      by (auto split: sum.splits)
    have "distinct (map fst (benchmark_results st1))"
      using cold_iteration_cases [OF it] Cons.prems(2) distinct_setdefault by auto
    then show ?thesis using Cons.IH [OF rest] by simp
  qed
qed

lemma cold_loop_length_le:
  "cold_loop loads prov n ios st = Some (Inr st') \<Longrightarrow>
   int (length (benchmark_results st')) \<le>
     int (length (benchmark_results st)) + (cold_start_counter st' - cold_start_counter st)"
proof (induction ios arbitrary: st)
  case Nil
  then show ?case by (auto split: if_splits)
next
  case (Cons io ios)
  show ?case
  proof (cases "cold_start_counter st < n")
    case False
    with Cons.prems show ?thesis by auto
  next
    case True
    with Cons.prems obtain st1 where it: "cold_iteration loads prov io st = Inr st1"
      and rest: "cold_loop loads prov n ios st1 = Some (Inr st')"
      by (auto split: sum.splits)
    have "int (length (benchmark_results st1)) \<le>
       int (length (benchmark_results st)) + (cold_start_counter st1 - cold_start_counter st)"
      using cold_iteration_cases [OF it] by (auto simp: length_setdefault)
    then show ?thesis using Cons.IH [OF rest] by linarith
  qed
qed

lemma reply_id_cold:
  "invoke_function loads prov io = Inr result \<Longrightarrow> reply_id loads prov io = request_id result"
  by (simp add: reply_id_def)

lemma cold_loop_length_eq:
  "cold_loop loads prov n ios st = Some (Inr st') \<Longrightarrow>
   distinct (map (reply_id loads prov) (filter (reply_is_cold loads prov) ios)) \<Longrightarrow>
   fst ` set (benchmark_results st) \<inter> reply_id loads prov ` {io \<in> set ios. reply_is_cold loads prov io} = {} \<Longrightarrow>
   int (length (benchmark_results st')) =
     int (length (benchmark_results st)) + (cold_start_counter st' - cold_start_counter st)"
proof (induction ios arbitrary: st)
  case Nil
  then show ?case by (auto split: if_splits)
next
  case (Cons io ios)
  show ?case
  proof (cases "cold_start_counter st < n")
    case False
    with Cons.prems show ?thesis by auto
  next
    case True
    with Cons.prems obtain st1 where it: "cold_iteration loads prov io st = Inr st1"
      and rest: "cold_loop loads prov n ios st1 = Some (Inr st')"
      by (auto split: sum.splits)
    have d: "distinct (map (reply_id loads prov) (filter (reply_is_cold loads prov) ios))"
      using Cons.prems(2) by (auto split: if_splits)
    from cold_iteration_cases [OF it]
    show ?thesis
    proof (elim disjE conjE exE)
      assume w: "reply_is_warm loads prov io"
        and e: "st1 = st\<lparr>effects := effects st @ [EnforceColdStart, Invoke, Sleep 5]\<rparr>"
      have "fst ` set (benchmark_results st1) \<inter>
          reply_id loads prov ` {io \<in> set ios. reply_is_cold loads prov io} = {}"
        using Cons.prems(3) e by auto
      from Cons.IH [OF rest d this] e show ?thesis by simp
    next
      fix result
      assume c: "reply_is_cold loads prov io"
        and inv: "invoke_function loads prov io = Inr result"
        and e: "st1 = st\<lparr>cold_start_counter := cold_start_counter st + 1,
               benchmark_results := setdefault (request_id result) result (benchmark_results st),
               effects := effects st @ [EnforceColdStart, Invoke]\<rparr>"
      have rid: "reply_id loads prov io = request_id result"
        using inv by (rule reply_id_cold)
      have fresh: "request_id result \<notin> fst ` set (benchmark_results st)"
        using Cons.prems(3) c rid by force
      have notin: "request_id result \<notin> reply_id loads prov ` {io \<in> set ios. reply_is_cold loads prov io}"
        using Cons.prems(2) c rid by auto
      have "fst ` set (benchmark_results st1) \<inter>
          reply_id loads prov ` {io \<in> set ios. reply_is_cold loads prov io} = {}"
        using Cons.prems(3) notin e by (auto simp: keys_setdefault)
      from Cons.IH [OF rest d this] e fresh show ?thesis
        by (simp add: length_setdefault)
    qed
  qed
qed


lemmas sample_defs = sample_loads_def reply_def stored_def reply_is_cold_def reply_is_warm_def
  reply_id_def invoke_function_def get_request_id_def body_get_def reports_cold_def
  FunctionInvocationResult_def cold_iteration_def setdefault_def initial_run_state_def

text \<open>
  C1. A reply that does not report a cold start is discarded: the counter and the stored
  records stay as they are, five seconds are slept, and the next pass starts again with the
  enforcement of a cold start. A reply that reports \<^verbatim>\<open>is_cold\<close> advances the counter by
  one and is stored under its request id. Every record stored by a finished loop stems from
  a cold reply, and the invocations made are the counted ones plus the discarded ones. For
  replies warm, warm, cold and one repetition, one record is stored and three invocations
  are made.
\<close>

theorem cold_loop_counts_only_cold_replies:
  "(reply_is_warm loads prov w \<longrightarrow>
      cold_iteration loads prov w st =
        Inr (st\<lparr>effects := effects st @ [EnforceColdStart, Invoke, Sleep 5]\<rparr>))
 \<and> (reply_is_cold loads prov c \<longrightarrow>
      (\<exists>result. invoke_function loads prov c = Inr result \<and>
         cold_iteration loads prov c st =
           Inr (st\<lparr>cold_start_counter := cold_start_counter st + 1,
                   benchmark_results := setdefault (request_id result) result (benchmark_results st),
                   effects := effects st @ [EnforceColdStart, Invoke]\<rparr>)))
 \<and> (cold_loop loads prov repetitions ios initial_run_state = Some (Inr final) \<longrightarrow>
      (\<forall>kr \<in> set (benchmark_results final). from_cold_reply loads prov ios kr)
      \<and> int (count_list (effects final) Invoke) =
          cold_start_counter final + int (count_list (effects final) (Sleep 5)))
 \<and> (reply_is_warm loads prov a \<and> reply_is_warm loads prov b \<and> reply_is_cold loads prov c \<longrightarrow>
      (\<exists>result. invoke_function loads prov c = Inr result \<and>
         cold_loop loads prov 1 (a # b # c # rest) initial_run_state =
           Some (Inr \<lparr>cold_start_counter = 1,
                      benchmark_results = [(request_id result, result)],
                      effects = [EnforceColdStart, Invoke, Sleep 5, EnforceColdStart, Invoke,
                                 Sleep 5, EnforceColdStart, Invoke]\<rparr>)))"
proof (intro conjI impI)
  assume "reply_is_warm loads prov w"
  then show "cold_iteration loads prov w st =
        Inr (st\<lparr>effects := effects st @ [EnforceColdStart, Invoke, Sleep 5]\<rparr>)"
    by (rule cold_iteration_warm)
next
  assume "reply_is_cold loads prov c"
  then show "\<exists>result. invoke_function loads prov c = Inr result \<and>
         cold_iteration loads prov c st =
           Inr (st\<lparr>cold_start_counter := cold_start_counter st + 1,
                   benchmark_results := setdefault (request_id result) result (benchmark_results st),
                   effects := effects st @ [EnforceColdStart, Invoke]\<rparr>)"
    by (rule cold_iteration_cold)
next
  assume run: "cold_loop loads prov repetitions ios initial_run_state = Some (Inr final)"
  show "\<forall>kr \<in> set (benchmark_results final). from_cold_reply loads prov ios kr"
    using cold_loop_only_cold [OF run] by (simp add: initial_run_state_def)
  show "int (count_list (effects final) Invoke) =
          cold_start_counter final + int (count_list (effects final) (Sleep 5))"
    using cold_loop_invocations [OF run] by (simp add: initial_run_state_def)
next
  assume h: "reply_is_warm loads prov a \<and> reply_is_warm loads prov b \<and> reply_is_cold loads prov c"
  obtain result where inv: "invoke_function loads prov c = Inr result"
    and it: "\<And>st. cold_iteration loads prov c st =
           Inr (st\<lparr>cold_start_counter := cold_start_counter st + 1,
                   benchmark_results := setdefault (request_id result) result (benchmark_results st),
                   effects := effects st @ [EnforceColdStart, Invoke]\<rparr>)"
    using h cold_iteration_cold_all [of loads prov c] by blast
  have "cold_loop loads prov 1 (a # b # c # rest) initial_run_state =
           Some (Inr \<lparr>cold_start_counter = 1,
                      benchmark_results = [(request_id result, result)],
                      effects = [EnforceColdStart, Invoke, Sleep 5, EnforceColdStart, Invoke,
                                 Sleep 5, EnforceColdStart, Invoke]\<rparr>)"
    using h by (cases rest) (simp_all add: cold_iteration_warm it initial_run_state_def setdefault_def)
  with inv show "\<exists>result. invoke_function loads prov c = Inr result \<and>
         cold_loop loads prov 1 (a # b # c # rest) initial_run_state =
           Some (Inr \<lparr>cold_start_counter = 1,
                      benchmark_results = [(request_id result, result)],
                      effects = [EnforceColdStart, Invoke, Sleep 5, EnforceColdStart, Invoke,
                                 Sleep 5, EnforceColdStart, Invoke]\<rparr>)"
    by blast
qed

theorem cold_loop_counts_only_cold_replies_witness:
  \<open>reply_is_warm sample_loads ''aws'' (reply ''x-amzn-RequestId'' ''r1'' ''{"is_cold": false}'')
 \<and> reply_is_warm sample_loads ''aws'' (reply ''x-amzn-RequestId'' ''r2'' ''{"is_cold": false}'')
 \<and> reply_is_cold sample_loads ''aws'' (reply ''x-amzn-RequestId'' ''r3'' ''{"is_cold": true}'')
 \<and> cold_loop sample_loads ''aws'' 1
      [reply ''x-amzn-RequestId'' ''r1'' ''{"is_cold": false}'',
       reply ''x-amzn-RequestId'' ''r2'' ''{"is_cold": false}'',
       reply ''x-amzn-RequestId'' ''r3'' ''{"is_cold": true}''] initial_run_state =
      Some (Inr \<lparr>cold_start_counter = 1,
                 benchmark_results = [stored ''r3'' (JObj [(''is_cold'', JBool True)])],
                 effects = [EnforceColdStart, Invoke, Sleep 5, EnforceColdStart, Invoke,
                            Sleep 5, EnforceColdStart, Invoke]\<rparr>)
 \<and> from_cold_reply sample_loads ''aws''
      [reply ''x-amzn-RequestId'' ''r1'' ''{"is_cold": false}'',
       reply ''x-amzn-RequestId'' ''r2'' ''{"is_cold": false}'',
       reply ''x-amzn-RequestId'' ''r3'' ''{"is_cold": true}'']
      (stored ''r3'' (JObj [(''is_cold'', JBool True)]))\<close>
proof -
  let ?w1 = \<open>reply ''x-amzn-RequestId'' ''r1'' ''{"is_cold": false}''\<close>
  let ?w2 = \<open>reply ''x-amzn-RequestId'' ''r2'' ''{"is_cold": false}''\<close>
  let ?c = \<open>reply ''x-amzn-RequestId'' ''r3'' ''{"is_cold": true}''\<close>
  let ?final = "\<lparr>cold_start_counter = 1,
                 benchmark_results = [stored ''r3'' (JObj [(''is_cold'', JBool True)])],
                 effects = [EnforceColdStart, Invoke, Sleep 5, EnforceColdStart, Invoke,
                            Sleep 5, EnforceColdStart, Invoke]\<rparr>"
  have w1: "reply_is_warm sample_loads ''aws'' ?w1" by (simp add: sample_defs)
  have w2: "reply_is_warm sample_loads ''aws'' ?w2" by (simp add: sample_defs)
  have c: "reply_is_cold sample_loads ''aws'' ?c" by (simp add: sample_defs)
  have inv: "invoke_function sample_loads ''aws'' ?c = Inr (snd (stored ''r3'' (JObj [(''is_cold'', JBool True)])))"
    by (simp add: sample_defs)
  note inst = cold_loop_counts_only_cold_replies
    [where loads = sample_loads and prov = "''aws''" and w = ?w1 and c = ?c and a = ?w1 and b = ?w2
       and rest = "[]" and st = initial_run_state and repetitions = 1 and ios = "[?w1, ?w2, ?c]"
       and final = ?final]
  have run: "cold_loop sample_loads ''aws'' 1 [?w1, ?w2, ?c] initial_run_state = Some (Inr ?final)"
    using inst w1 w2 c inv by (simp add: stored_def)
  show ?thesis using inst w1 w2 c run by simp
qed

text \<open>
  C6. When the loop finishes, the keys of the record set are pairwise distinct, the counter
  equals the repetition budget (zero for a negative budget), and the set holds at most as
  many records as the budget. It holds exactly as many when the request ids of the cold
  replies are pairwise distinct: the counter advances for every cold reply, while
  \<^verbatim>\<open>setdefault\<close> keeps the first record of an id that comes a second time.
\<close>

theorem cold_loop_record_count:
  "cold_loop loads prov repetitions ios initial_run_state = Some (Inr final) \<Longrightarrow>
     distinct (map fst (benchmark_results final))
   \<and> cold_start_counter final = max 0 repetitions
   \<and> int (length (benchmark_results final)) \<le> max 0 repetitions
   \<and> (distinct (map (reply_id loads prov) (filter (reply_is_cold loads prov) ios)) \<longrightarrow>
        int (length (benchmark_results final)) = max 0 repetitions)"
proof (intro conjI impI)
  assume run: "cold_loop loads prov repetitions ios initial_run_state = Some (Inr final)"
  show "distinct (map fst (benchmark_results final))"
    using cold_loop_distinct_keys [OF run] by (simp add: initial_run_state_def)
  show c: "cold_start_counter final = max 0 repetitions"
    using cold_loop_counter [OF run] by (simp add: initial_run_state_def)
  show "int (length (benchmark_results final)) \<le> max 0 repetitions"
    using cold_loop_length_le [OF run] c by (simp add: initial_run_state_def)
  assume "distinct (map (reply_id loads prov) (filter (reply_is_cold loads prov) ios))"
  then show "int (length (benchmark_results final)) = max 0 repetitions"
    using cold_loop_length_eq [OF run] c by (simp add: initial_run_state_def)
qed

theorem cold_loop_record_count_witness:
  \<open>cold_loop sample_loads ''aws'' 2
      [reply ''x-amzn-RequestId'' ''r1'' ''{"is_cold": true}'',
       reply ''x-amzn-RequestId'' ''r2'' ''{"is_cold": false}'',
       reply ''x-amzn-RequestId'' ''r3'' ''{"is_cold": true}''] initial_run_state =
      Some (Inr \<lparr>cold_start_counter = 2,
                 benchmark_results = [stored ''r1'' (JObj [(''is_cold'', JBool True)]),
                                      stored ''r3'' (JObj [(''is_cold'', JBool True)])],
                 effects = [EnforceColdStart, Invoke, EnforceColdStart, Invoke, Sleep 5,
                            EnforceColdStart, Invoke]\<rparr>)
 \<and> distinct (map (reply_id sample_loads ''aws'')
      (filter (reply_is_cold sample_loads ''aws'')
        [reply ''x-amzn-RequestId'' ''r1'' ''{"is_cold": true}'',
         reply ''x-amzn-RequestId'' ''r2'' ''{"is_cold": false}'',
         reply ''x-amzn-RequestId'' ''r3'' ''{"is_cold": true}'']))
 \<and> distinct (map fst [stored ''r1'' (JObj [(''is_cold'', JBool True)]),
                       stored ''r3'' (JObj [(''is_cold'', JBool True)])])
 \<and> int (length [stored ''r1'' (JObj [(''is_cold'', JBool True)]),
                  stored ''r3'' (JObj [(''is_cold'', JBool True)])]) = max 0 2\<close>
proof -
  let ?ios = \<open>[reply ''x-amzn-RequestId'' ''r1'' ''{"is_cold": true}'',
       reply ''x-amzn-RequestId'' ''r2'' ''{"is_cold": false}'',
       reply ''x-amzn-RequestId'' ''r3'' ''{"is_cold": true}'']\<close>
  let ?final = "\<lparr>cold_start_counter = 2,
                 benchmark_results = [stored ''r1'' (JObj [(''is_cold'', JBool True)]),
                                      stored ''r3'' (JObj [(''is_cold'', JBool True)])],
                 effects = [EnforceColdStart, Invoke, EnforceColdStart, Invoke, Sleep 5,
                            EnforceColdStart, Invoke]\<rparr>"
  have run: "cold_loop sample_loads ''aws'' 2 ?ios initial_run_state = Some (Inr ?final)"
    by (simp add: sample_defs)
  have d: "distinct (map (reply_id sample_loads ''aws'') (filter (reply_is_cold sample_loads ''aws'') ?ios))"
    by (simp add: sample_defs)
  show ?thesis
    using cold_loop_record_count [OF run] run d by simp
qed

theorem cold_loop_repeated_id_counterexample:
  \<open>cold_loop sample_loads ''aws'' 2
      [reply ''content-type'' ''application/json'' ''{"is_cold": true}'',
       reply ''content-type'' ''application/json'' ''{"is_cold": true}''] initial_run_state =
      Some (Inr \<lparr>cold_start_counter = 2,
                 benchmark_results =
                   [(None, \<lparr>request_id = None, provider_time = None, client_begin = 1000000,
                             client_end = 3000000, client_time = 2,
                             response_body = Parsed (JObj [(''is_cold'', JBool True)])\<rparr>)],
                 effects = [EnforceColdStart, Invoke, EnforceColdStart, Invoke]\<rparr>)\<close>
  by (simp add: sample_defs)

text \<open>
  A body that is not JSON: \<^verbatim>\<open>invoke_function\<close> returns a record that holds the raw
  text, and the loop's test \<^verbatim>\<open>result.response_body.get('is_cold')\<close> then raises, for a
  string has no \<^verbatim>\<open>get\<close>.
\<close>

lemma invoke_function_keeps_raw_text:
  assumes "outcome io = Response response"
    and "get_request_id (headers response) prov = Inr rid"
    and "data response = Some text" and "text \<noteq> []" and "loads text = None"
  shows "invoke_function loads prov io =
           Inr (FunctionInvocationResult rid (start_time io) (end_time io)
                  (of_int (end_time io - start_time io) / 1000000) (Raw text))"
  using assms by (simp add: invoke_function_def)

lemma cold_loop_raises_on_raw_text:
  assumes "invoke_function loads prov io = Inr result" and "response_body result = Raw text"
    and "cold_start_counter st < repetitions"
  shows "cold_loop loads prov repetitions (io # ios) st = Some (Inl AttributeError)"
  using assms by (simp add: cold_iteration_def body_get_def)

text \<open>
  C3. For the reply with request id \<open>r1\<close> and the body \<^verbatim>\<open><html>502</html>\<close>,
  \<^verbatim>\<open>invoke_function\<close> returns normally with the raw text as \<^verbatim>\<open>response_body\<close>; the
  cold-start loop that made the invocation ends with \<open>AttributeError\<close>, so the invocation
  is not counted and no record set is left, although a cold reply would follow.
\<close>

theorem malformed_body_aborts_cold_run:
  \<open>invoke_function sample_loads ''aws'' (reply ''x-amzn-RequestId'' ''r1'' ''<html>502</html>'') =
     Inr \<lparr>request_id = Some ''r1'', provider_time = None, client_begin = 1000000,
          client_end = 3000000, client_time = 2, response_body = Raw ''<html>502</html>''\<rparr>
 \<and> cold_loop sample_loads ''aws'' 1
      [reply ''x-amzn-RequestId'' ''r1'' ''<html>502</html>'',
       reply ''x-amzn-RequestId'' ''r2'' ''{"is_cold": true}''] initial_run_state =
      Some (Inl AttributeError)\<close>
  by (simp add: sample_defs)

section \<open>Properties of the cold-start enforcement\<close>





















section \<open>Properties of the result file\<close>



section \<open>Properties of the reconcilers\<close>

lemma split_on_nonempty: "split_on c s \<noteq> []"
  by (induction s) (auto split: list.splits)

lemma split_on_pieces: "\<forall>p \<in> set (split_on c s). c \<notin> set p"
  by (induction s) (auto split: list.splits)

lemma last_split_on: "c \<notin> set (last (split_on c s))"
  using split_on_pieces [of c s] split_on_nonempty [of c s] last_in_set by blast

lemma hd_split_on: "hd (split_on c s) = takeWhile (\<lambda>x. x \<noteq> c) s"
  by (induction s) (auto simp: split_on_nonempty split: list.splits)

lemma map_fst_set_provider_time: "map fst (set_provider_time k x reqs) = map fst reqs"
  by (induction reqs) (auto simp: set_provider_time_def)

lemma keys_set_provider_time: "fst ` set (set_provider_time k x reqs) = fst ` set reqs"
  using map_fst_set_provider_time [of k x reqs] by (metis set_map)

lemma map_of_set_provider_time_other:
  "k' \<noteq> k \<Longrightarrow> map_of (set_provider_time k x reqs) k' = map_of reqs k'"
  by (induction reqs) (auto simp: set_provider_time_def)


lemma gcp_process_entries_keeps:
  "gcp_process_entries fl logs (processed, reqs, lg) = Inr (processed', reqs', lg') \<Longrightarrow>
   CHR ''/'' \<in> set rid \<Longrightarrow>
   map_of reqs' (Some rid) = map_of reqs (Some rid)
   \<and> (Some rid \<in> set processed' \<longrightarrow> Some rid \<in> set processed)"
proof (induction logs arbitrary: processed reqs lg)
  case Nil
  then show ?case by simp
next
  case (Cons entry logs)
  show ?case
  proof (cases "is_LogEntry entry \<and> (\<exists>t. trace entry = Some t \<and> t \<noteq> [])")
    case False
    then have "gcp_process_entries fl (entry # logs) (processed, reqs, lg) =
        gcp_process_entries fl logs (processed, reqs, lg)"
      by (auto split: option.splits)
    then show ?thesis using Cons.IH Cons.prems by simp
  next
    case True
    then obtain t where t: "is_LogEntry entry" "trace entry = Some t" "t \<noteq> []" by blast
    let ?id = "last (split_on CHR ''/'' t)"
    have ne: "?id \<noteq> rid"
      using last_split_on [of "CHR ''/''" t] Cons.prems(2) by metis
    from Cons.prems(1) t obtain d where d: "gcp_duration fl entry = Inr d"
      by (cases "gcp_duration fl entry") (auto simp: Let_def)
    show ?thesis
    proof (cases "Some ?id \<in> fst ` set reqs")
      case True
      then have "gcp_process_entries fl logs
           (List.insert (Some ?id) processed, set_provider_time (Some ?id) d reqs,
            lg @ [(DEBUG, FoundRequest ?id)]) = Inr (processed', reqs', lg')"
        using Cons.prems(1) t d by (simp add: Let_def)
      from Cons.IH [OF this Cons.prems(2)] ne show ?thesis
        by (simp add: map_of_set_provider_time_other)
    next
      case False
      then have "gcp_process_entries fl logs
           (processed, reqs, lg @ [(DEBUG, FoundRequest ?id)]) = Inr (processed', reqs', lg')"
        using Cons.prems(1) t d by (simp add: Let_def)
      from Cons.IH [OF this Cons.prems(2)] show ?thesis .
    qed
  qed
qed

text \<open>
  C7. For GCP the id stored at invocation time is the \<^verbatim>\<open>X-Cloud-Trace-Context\<close> header
  cut at the first \<open>;\<close>. The id that the reconciler computes from a log entry is the last
  \<open>/\<close>-separated piece of the trace and so contains no \<open>/\<close>. A stored id that contains
  a \<open>/\<close> (the form \<^verbatim>\<open>TRACE_ID/SPAN_ID\<close>) therefore differs from every id the reconciler
  computes, and whatever the fetched entries are, the record stored under it comes back
  from \<^verbatim>\<open>enrich_metrics\<close> as it went in, without a provider time.
\<close>

theorem gcp_stored_id_never_matched:
  "(hdrs ''X-Cloud-Trace-Context'' = Some h \<longrightarrow>
      get_request_id hdrs ''gcp'' = Inr (Some (takeWhile (\<lambda>x. x \<noteq> CHR '';'') h)))
 \<and> CHR ''/'' \<notin> set (last (split_on CHR ''/'' t))
 \<and> (CHR ''/'' \<in> set (takeWhile (\<lambda>x. x \<noteq> CHR '';'') h) \<longrightarrow>
      last (split_on CHR ''/'' t) \<noteq> takeWhile (\<lambda>x. x \<noteq> CHR '';'') h)
 \<and> (CHR ''/'' \<in> set (takeWhile (\<lambda>x. x \<noteq> CHR '';'') h)
      \<and> gcp_enrich_metrics fl fetched reqs = Inr st \<longrightarrow>
      map_of (requests st) (Some (takeWhile (\<lambda>x. x \<noteq> CHR '';'') h)) =
        map_of reqs (Some (takeWhile (\<lambda>x. x \<noteq> CHR '';'') h)))"
proof (intro conjI impI)
  assume "hdrs ''X-Cloud-Trace-Context'' = Some h"
  then show "get_request_id hdrs ''gcp'' = Inr (Some (takeWhile (\<lambda>x. x \<noteq> CHR '';'') h))"
    by (simp add: get_request_id_def hd_split_on)
next
  show "CHR ''/'' \<notin> set (last (split_on CHR ''/'' t))" by (rule last_split_on)
next
  assume "CHR ''/'' \<in> set (takeWhile (\<lambda>x. x \<noteq> CHR '';'') h)"
  then show "last (split_on CHR ''/'' t) \<noteq> takeWhile (\<lambda>x. x \<noteq> CHR '';'') h"
    using last_split_on [of "CHR ''/''" t] by metis
next
  let ?rid = "takeWhile (\<lambda>x. x \<noteq> CHR '';'') h"
  assume h: "CHR ''/'' \<in> set ?rid \<and> gcp_enrich_metrics fl fetched reqs = Inr st"
  show "map_of (requests st) (Some ?rid) = map_of reqs (Some ?rid)"
  proof (cases "fetched = None \<or> fetched = Some []")
    case True
    then show ?thesis using h by (auto simp: gcp_enrich_metrics_def)
  next
    case False
    then obtain logs where l: "fetched = Some logs" "logs \<noteq> []" by auto
    with h obtain processed reqs' lg where
      p: "gcp_process_entries fl logs ([], reqs, [(INFO, FetchingLogs)]) = Inr (processed, reqs', lg)"
      and st: "requests st = reqs'"
      by (auto simp: gcp_enrich_metrics_def split: sum.splits)
    from gcp_process_entries_keeps [OF p] h st show ?thesis by simp
  qed
qed


theorem gcp_stored_id_never_matched_witness:
  "get_request_id [''X-Cloud-Trace-Context'' \<mapsto> ''4bf92f35/1;o=1''] ''gcp'' = Inr (Some ''4bf92f35/1'')
 \<and> CHR ''/'' \<in> set (takeWhile (\<lambda>x. x \<noteq> CHR '';'') ''4bf92f35/1;o=1'')
 \<and> gcp_enrich_metrics sample_float
      (Some [\<lparr>is_LogEntry = True, trace = Some ''projects/p/traces/4bf92f35'',
              httpRequest = Some (Some ''0.25s'')\<rparr>])
      [stored ''4bf92f35/1'' (JObj [(''is_cold'', JBool True)])] =
     Inr \<lparr>requests = [stored ''4bf92f35/1'' (JObj [(''is_cold'', JBool True)])],
          slept = 60, queries = 1,
          logged = [(INFO, FetchingLogs), (DEBUG, FoundRequest ''4bf92f35''),
                    (INFO, FoundMetrics 0 1), (INFO, MissingRequests [Some ''4bf92f35/1''])]\<rparr>"
proof -
  let ?reqs = "[stored ''4bf92f35/1'' (JObj [(''is_cold'', JBool True)])]"
  let ?st = "\<lparr>requests = ?reqs, slept = 60, queries = 1,
          logged = [(INFO, FetchingLogs), (DEBUG, FoundRequest ''4bf92f35''),
                    (INFO, FoundMetrics 0 1), (INFO, MissingRequests [Some ''4bf92f35/1''])]\<rparr>"
  let ?logs = "Some [\<lparr>is_LogEntry = True, trace = Some ''projects/p/traces/4bf92f35'',
              httpRequest = Some (Some ''0.25s'')\<rparr>]"
  have run: "gcp_enrich_metrics sample_float ?logs ?reqs = Inr ?st"
    by (simp add: gcp_enrich_metrics_def gcp_duration_def rstrip_def sample_float_def stored_def
        Let_def)
  note inst = gcp_stored_id_never_matched
    [where hdrs = "[''X-Cloud-Trace-Context'' \<mapsto> ''4bf92f35/1;o=1'']" and h = "''4bf92f35/1;o=1''"
       and t = "''projects/p/traces/4bf92f35''" and fl = sample_float and fetched = ?logs
       and reqs = ?reqs and st = ?st]
  show ?thesis using inst run by simp
qed

lemma parse_aws_report_foreign:
  "report_fields fl lg = Inr (rid, secs) \<Longrightarrow> Some rid \<notin> fst ` set reqs \<Longrightarrow>
   parse_aws_report fl lg reqs = Inl (KeyError rid)"
  by (simp add: parse_aws_report_def)

lemma parse_aws_report_keys:
  "parse_aws_report fl lg reqs = Inr (rid, reqs') \<Longrightarrow> fst ` set reqs' = fst ` set reqs"
proof -
  assume "parse_aws_report fl lg reqs = Inr (rid, reqs')"
  then obtain secs where "reqs' = set_provider_time (Some rid) secs reqs"
    by (auto simp: parse_aws_report_def split: sum.splits if_splits)
  then show ?thesis by (simp add: keys_set_provider_time)
qed

lemma aws_process_row_keys:
  "aws_process_row fl parts (n, ids, reqs) = Inr (n', ids', reqs') \<Longrightarrow>
   fst ` set reqs' = fst ` set reqs"
proof (induction parts arbitrary: n ids reqs)
  case Nil
  then show ?case by simp
next
  case (Cons part parts)
  obtain fld val where part: "part = (fld, val)" by (cases part)
  show ?case
  proof (cases "fld = ''@message''")
    case False
    then show ?thesis using Cons part by simp
  next
    case True
    with Cons.prems part obtain rid reqs1 where
      p: "parse_aws_report fl val reqs = Inr (rid, reqs1)"
      by (cases "parse_aws_report fl val reqs") auto
    have k: "fst ` set reqs1 = fst ` set reqs" using p by (rule parse_aws_report_keys)
    from Cons.prems part True p
    obtain n1 ids1 where "aws_process_row fl parts (n1, ids1, reqs1) = Inr (n', ids', reqs')"
      by (auto split: if_splits)
    from Cons.IH [OF this] k show ?thesis by simp
  qed
qed

lemma aws_process_row_foreign:
  "(''@message'', lg) \<in> set parts \<Longrightarrow> report_fields fl lg = Inr (rid, secs) \<Longrightarrow>
   Some rid \<notin> fst ` set reqs \<Longrightarrow> \<exists>e. aws_process_row fl parts (n, ids, reqs) = Inl e"
proof (induction parts arbitrary: n ids reqs)
  case Nil
  then show ?case by simp
next
  case (Cons part parts)
  obtain fld val where part: "part = (fld, val)" by (cases part)
  show ?case
  proof (cases "fld = ''@message''")
    case False
    then have "(''@message'', lg) \<in> set parts" using Cons.prems(1) part by auto
    from Cons.IH [OF this Cons.prems(2,3)] show ?thesis using False part by simp
  next
    case True
    show ?thesis
    proof (cases "parse_aws_report fl val reqs")
      case (Inl e)
      then show ?thesis using True part by simp
    next
      case (Inr a)
      obtain rid1 reqs1 where a: "a = (rid1, reqs1)" by (cases a)
      have k: "fst ` set reqs1 = fst ` set reqs"
        using Inr a parse_aws_report_keys by blast
      have "val \<noteq> lg"
        using Inr parse_aws_report_foreign [OF Cons.prems(2,3)] by auto
      then have mem: "(''@message'', lg) \<in> set parts" using Cons.prems(1) part by auto
      have f: "Some rid \<notin> fst ` set reqs1" using k Cons.prems(3) by simp
      from Cons.IH [OF mem Cons.prems(2) f]
      show ?thesis using True part Inr a by auto
    qed
  qed
qed

lemma aws_process_rows_foreign:
  "row \<in> set rows \<Longrightarrow> (''@message'', lg) \<in> set row \<Longrightarrow> report_fields fl lg = Inr (rid, secs) \<Longrightarrow>
   Some rid \<notin> fst ` set reqs \<Longrightarrow> \<exists>e. aws_process_rows fl rows (n, ids, reqs) = Inl e"
proof (induction rows arbitrary: n ids reqs)
  case Nil
  then show ?case by simp
next
  case (Cons r rows)
  show ?case
  proof (cases "aws_process_row fl r (n, ids, reqs)")
    case (Inl e)
    then show ?thesis by simp
  next
    case (Inr acc)
    obtain n1 ids1 reqs1 where acc: "acc = (n1, ids1, reqs1)" by (cases acc)
    have k: "fst ` set reqs1 = fst ` set reqs"
      using Inr acc aws_process_row_keys by blast
    have "r \<noteq> row"
      using Inr aws_process_row_foreign [OF Cons.prems(2,3,4), of n ids] by auto
    then have mem: "row \<in> set rows" using Cons.prems(1) by auto
    have f: "Some rid \<notin> fst ` set reqs1" using k Cons.prems(4) by simp
    from Cons.IH [OF mem Cons.prems(2,3) f]
    show ?thesis using Inr acc by auto
  qed
qed

text \<open>
  C8. \<^verbatim>\<open>parse_aws_report\<close> is called with the requests dict, takes
  \<^verbatim>\<open>output = requests\<close> and indexes it with the parsed request id without a test. For a
  \<^verbatim>\<open>REPORT\<close> line whose fields parse and whose request id is not a key of the dict,
  the call raises \<open>KeyError\<close> with that id; \<^verbatim>\<open>process_query_results\<close> and
  \<^verbatim>\<open>enrich_metrics\<close> pass the exception on, and no query answer that holds such a line
  is processed to the end.
\<close>

theorem aws_foreign_report_raises_key_error:
  assumes "report_fields fl lg = Inr (rid, secs)" and "Some rid \<notin> fst ` set reqs"
  shows "parse_aws_report fl lg reqs = Inl (KeyError rid)
       \<and> process_query_results fl (((''@message'', lg) # parts) # rows) reqs = Inl (KeyError rid)
       \<and> (reqs \<noteq> [] \<longrightarrow>
            aws_enrich_metrics fl ((((''@message'', lg) # parts) # rows) # answers) reqs =
              Some (Inl (KeyError rid)))
       \<and> (row \<in> set res \<and> (''@message'', lg) \<in> set row \<longrightarrow>
            (\<exists>e. process_query_results fl res reqs = Inl e))"
proof (intro conjI impI)
  show p: "parse_aws_report fl lg reqs = Inl (KeyError rid)"
    using assms by (rule parse_aws_report_foreign)
  show q: "process_query_results fl (((''@message'', lg) # parts) # rows) reqs = Inl (KeyError rid)"
    using p by (simp add: process_query_results_def)
  assume "reqs \<noteq> []"
  then show "aws_enrich_metrics fl ((((''@message'', lg) # parts) # rows) # answers) reqs =
      Some (Inl (KeyError rid))"
    using q by (simp add: aws_enrich_metrics_def)
next
  assume "row \<in> set res \<and> (''@message'', lg) \<in> set row"
  then obtain e where "aws_process_rows fl res (0, remdups (map fst reqs), reqs) = Inl e"
    using aws_process_rows_foreign [OF _ _ assms] by blast
  then show "\<exists>e. process_query_results fl res reqs = Inl e"
    by (simp add: process_query_results_def)
qed


theorem aws_foreign_report_raises_key_error_witness:
  "report_fields sample_float (report_line ''abc-1'' ''12.50'') = Inr (''abc-1'', 1 / 80)
 \<and> Some ''abc-1'' \<notin> fst ` set [stored ''r1'' (JObj [(''is_cold'', JBool True)])]
 \<and> parse_aws_report sample_float (report_line ''abc-1'' ''12.50'')
      [stored ''r1'' (JObj [(''is_cold'', JBool True)])] = Inl (KeyError ''abc-1'')
 \<and> aws_enrich_metrics sample_float [[[(''@message'', report_line ''abc-1'' ''12.50'')]]]
      [stored ''r1'' (JObj [(''is_cold'', JBool True)])] = Some (Inl (KeyError ''abc-1''))"
proof -
  have f: "report_fields sample_float (report_line ''abc-1'' ''12.50'') = Inr (''abc-1'', 1 / 80)"
    by (simp add: report_fields_def report_line_def isspace_def is_space_def first_token_def
        aws_request_id_def sample_float_def)
  have k: "Some ''abc-1'' \<notin> fst ` set [stored ''r1'' (JObj [(''is_cold'', JBool True)])]"
    by (simp add: stored_def)
  show ?thesis
    using aws_foreign_report_raises_key_error
      [OF f k, where parts = "[]" and rows = "[]" and answers = "[]"
         and res = "[[(''@message'', report_line ''abc-1'' ''12.50'')]]"
         and row = "[(''@message'', report_line ''abc-1'' ''12.50'')]"] f k
    by simp
qed

subsection \<open>Bounded and unbounded retrying\<close>







text \<open>
  The AWS loop, in contrast, has no attempt cap: as long as the answers hold no
  \<^verbatim>\<open>@message\<close> part it keeps asking, however many answers it is given.
\<close>

lemma aws_process_row_no_message:
  "\<forall>part \<in> set row. fst part \<noteq> ''@message'' \<Longrightarrow> aws_process_row fl row acc = Inr acc"
proof (induction row)
  case Nil
  then show ?case by simp
next
  case (Cons part row)
  obtain fld val where "part = (fld, val)" by (cases part)
  moreover obtain n ids reqs where "acc = (n, ids, reqs)" by (cases acc)
  ultimately show ?case using Cons by simp
qed

lemma aws_process_rows_no_message:
  "\<forall>row \<in> set rows. \<forall>part \<in> set row. fst part \<noteq> ''@message'' \<Longrightarrow>
   aws_process_rows fl rows acc = Inr acc"
  by (induction rows) (simp_all add: aws_process_row_no_message)

lemma aws_requery_loop_unbounded:
  "\<forall>res \<in> set answers. \<forall>row \<in> set res. \<forall>part \<in> set row. fst part \<noteq> ''@message'' \<Longrightarrow>
   0 < results_count \<Longrightarrow>
   aws_requery_loop fl results_count answers 0 st = None"
  by (induction answers arbitrary: st)
     (simp_all add: process_query_results_def aws_process_rows_no_message)

lemma aws_enrich_metrics_unbounded:
  "\<forall>res \<in> set answers. \<forall>row \<in> set res. \<forall>part \<in> set row. fst part \<noteq> ''@message'' \<Longrightarrow>
   reqs \<noteq> [] \<Longrightarrow> aws_enrich_metrics fl answers reqs = None"
  by (simp add: aws_enrich_metrics_def aws_requery_loop_unbounded)

subsection \<open>A fetch that matches some of the records\<close>
























end
